theory Spec2Isabelle
  imports Main
begin

section \<open>Go runtime primitives\<close>

text \<open>
  A Go \<^verbatim>\<open>string\<close> is a sequence of bytes, and \<^verbatim>\<open>s[i]\<close> and \<^verbatim>\<open>s[lo:hi]\<close> work on
  bytes. An Isabelle \<^typ>\<open>char\<close> is one byte, so a Go string is a \<^typ>\<open>string\<close>; a
  character outside ASCII is the several bytes of its UTF-8 encoding.
  An index or a slice out of range is a run-time panic of Go; the model returns it as a
  value, and every caller passes it on.
  The cursor \<^verbatim>\<open>cur\<close> is a Go \<^verbatim>\<open>int\<close> (64 bits); it is modelled as \<^typ>\<open>int\<close>: it stays
  below the length of the text plus 3, and a Go string is shorter than \<open>2^63 - 3\<close> bytes.
\<close>

datatype error = IndexOutOfRange | SliceOutOfRange

definition index_at :: "string \<Rightarrow> int \<Rightarrow> error + char" where
  "index_at s i =
     (if 0 \<le> i \<and> i < int (length s) then Inr (s ! nat i) else Inl IndexOutOfRange)"

definition slice :: "string \<Rightarrow> int \<Rightarrow> int \<Rightarrow> error + string" where
  "slice s lo hi =
     (if 0 \<le> lo \<and> lo \<le> hi \<and> hi \<le> int (length s)
      then Inr (take (nat (hi - lo)) (drop (nat lo) s))
      else Inl SliceOutOfRange)"

text \<open>
  Go's \<^verbatim>\<open>&&\<close>, \<^verbatim>\<open>||\<close> and \<^verbatim>\<open>!\<close> over operands that may panic: the right operand of
  \<^verbatim>\<open>&&\<close> is evaluated only when the left one is true, that of \<^verbatim>\<open>||\<close> only when it is
  false. \<open>cond\<close> is \<^verbatim>\<open>if g { ... } else { ... }\<close> with such a guard.
\<close>

definition and_then :: "error + bool \<Rightarrow> error + bool \<Rightarrow> error + bool" where
  "and_then a b = (case a of Inl e \<Rightarrow> Inl e | Inr x \<Rightarrow> if x then b else Inr False)"

definition or_else :: "error + bool \<Rightarrow> error + bool \<Rightarrow> error + bool" where
  "or_else a b = (case a of Inl e \<Rightarrow> Inl e | Inr x \<Rightarrow> if x then Inr True else b)"

definition neg :: "error + bool \<Rightarrow> error + bool" where
  "neg a = (case a of Inl e \<Rightarrow> Inl e | Inr x \<Rightarrow> Inr (\<not> x))"

definition cond :: "error + bool \<Rightarrow> error + 'a \<Rightarrow> error + 'a \<Rightarrow> error + 'a" where
  "cond g a b = (case g of Inl e \<Rightarrow> Inl e | Inr x \<Rightarrow> if x then a else b)"

section \<open>The scan state and its primitives\<close>

record phoneticData =
  t :: string
  cur :: int
  isSlavoGermanic :: bool
  metaphone1 :: string
  metaphone2 :: string

text \<open>The loop of \<^verbatim>\<open>matchesAny\<close> over the candidates, in their order.\<close>

fun matchesLoop :: "phoneticData \<Rightarrow> int \<Rightarrow> string list \<Rightarrow> error + bool" where
  "matchesLoop p pos [] = Inr False"
| "matchesLoop p pos (str # rest) =
     (case slice (t p) (cur p + pos) (cur p + int (length str) + pos) of
        Inl e \<Rightarrow> Inl e
      | Inr w \<Rightarrow> if w = str then Inr True else matchesLoop p pos rest)"

definition matchesAny :: "phoneticData \<Rightarrow> int \<Rightarrow> string list \<Rightarrow> error + bool" where
  "matchesAny p pos matches =
     (if length matches = 0 then Inr True
      else if cur p + pos < 0 then Inr False
      else matchesLoop p pos matches)"

definition add :: "phoneticData \<Rightarrow> string list \<Rightarrow> phoneticData" where
  "add p phoneme =
     (if length phoneme > 0 then
        (let p1 = p\<lparr>metaphone1 := metaphone1 p @ phoneme ! 0\<rparr>
         in if length phoneme > 1
            then p1\<lparr>metaphone2 := metaphone2 p1 @ phoneme ! 1\<rparr>
            else p1\<lparr>metaphone2 := metaphone2 p1 @ phoneme ! 0\<rparr>)
      else p)"

definition skip :: "phoneticData \<Rightarrow> int \<Rightarrow> phoneticData" where
  "skip p skipBy = p\<lparr>cur := cur p + skipBy\<rparr>"

definition isVowel :: "phoneticData \<Rightarrow> int \<Rightarrow> error + bool" where
  "isVowel p pos = matchesAny p pos [''a'', ''e'', ''i'', ''o'', ''u'', ''y'']"

section \<open>The letter handlers\<close>

definition b :: "phoneticData \<Rightarrow> error + phoneticData" where
  "b p =
     (let p1 = add p [''p'']
      in case index_at (t p1) (cur p1 + 1) of
           Inl e \<Rightarrow> Inl e
         | Inr ch \<Rightarrow> if ch = CHR ''b'' then Inr (skip p1 1) else Inr p1)"

text \<open>The method of the source whose name is the letter c with cedilla.\<close>

definition c_cedilla :: "phoneticData \<Rightarrow> phoneticData" where
  "c_cedilla p = add p [''s'']"

text \<open>The guards of the handler \<^verbatim>\<open>c\<close>, in the order of its \<^verbatim>\<open>if ... else if\<close> chain.\<close>

definition c_germanic :: "phoneticData \<Rightarrow> error + bool" where
  "c_germanic p =
     and_then (Inr (cur p > 1))
    (and_then (neg (isVowel p (- 2)))
    (and_then (matchesAny p (- 1) [''ach''])
    (and_then (neg (matchesAny p 2 [''i'']))
              (or_else (neg (matchesAny p 2 [''e''])) (matchesAny p (- 2) [''acher''])))))"

definition c_caesar :: "phoneticData \<Rightarrow> error + bool" where
  "c_caesar p = and_then (Inr (cur p = 0)) (matchesAny p 0 [''caesar''])"

definition c_chia :: "phoneticData \<Rightarrow> error + bool" where
  "c_chia p = matchesAny p 0 [''chia'']"

definition c_ch :: "phoneticData \<Rightarrow> error + bool" where
  "c_ch p = matchesAny p 0 [''ch'']"

definition c_cz :: "phoneticData \<Rightarrow> error + bool" where
  "c_cz p = and_then (matchesAny p 0 [''cz'']) (neg (matchesAny p (- 2) [''wicz'']))"

definition c_cia :: "phoneticData \<Rightarrow> error + bool" where
  "c_cia p = matchesAny p 1 [''cia'']"

text \<open>The guards inside the \<^verbatim>\<open>ch\<close> branch.\<close>

definition ch_michael :: "phoneticData \<Rightarrow> error + bool" where
  "ch_michael p = and_then (Inr (cur p > 0)) (matchesAny p 0 [''chae''])"

definition ch_greek :: "phoneticData \<Rightarrow> error + bool" where
  "ch_greek p =
     and_then (Inr (cur p = 0))
    (and_then (neg (matchesAny p 0 [''chore'']))
              (matchesAny p 1 [''harac'', ''haris'', ''hor'', ''hym'', ''hia'', ''hem'']))"

definition ch_kh :: "phoneticData \<Rightarrow> error + bool" where
  "ch_kh p =
     or_else (matchesAny p (- cur p) [''van '', ''von '', ''sch''])
    (or_else (matchesAny p (- 2) [''orches'', ''archit'', ''orchid''])
    (or_else (matchesAny p 2 [''t'', ''s''])
             (and_then (or_else (matchesAny p (- 1) [''a'', ''e'', ''o'', ''u''])
                                (Inr (cur p = 0)))
                       (matchesAny p 2 [''l'', ''r'', ''n'', ''m'', ''b'', ''h'', ''f'',
                                        ''v'', ''w'', '' '']))))"

text \<open>The body of the \<^verbatim>\<open>ch\<close> branch: one emission, then \<^verbatim>\<open>p.skip(1)\<close>.\<close>

definition ch_branch :: "phoneticData \<Rightarrow> error + phoneticData" where
  "ch_branch p =
     (case cond (ch_michael p) (Inr (add p [''k'']))
          (cond (ch_greek p) (Inr (add p [''k'']))
          (cond (ch_kh p) (Inr (add p [''k'']))
          (if cur p > 0
           then cond (matchesAny p (- cur p) [''mc''])
                  (Inr (add p [''k'']))
                  (Inr (add p [''x'', ''k'']))
           else Inr (add p [''x''])))) of
        Inl e \<Rightarrow> Inl e
      | Inr q \<Rightarrow> Inr (skip q 1))"

definition c :: "phoneticData \<Rightarrow> error + phoneticData" where
  "c p =
     cond (c_germanic p) (Inr (skip (add p [''k'']) 1))
    (cond (c_caesar p) (Inr (skip (add p [''s'']) 1))
    (cond (c_chia p) (Inr (skip (add p [''k'']) 1))
    (cond (c_ch p) (ch_branch p)
    (cond (c_cz p) (Inr (skip (add p [''s'', ''x'']) 1))
    (cond (c_cia p) (Inr (skip (add p [''x'']) 2))
          (Inr p))))))"

section \<open>The scan loop\<close>

text \<open>
  The \<^verbatim>\<open>switch\<close> on the byte at the cursor. The case for c with cedilla compares the byte with
  the rune constant U+00E7, that is with the byte \<open>0xE7\<close>.
\<close>

definition dispatch :: "phoneticData \<Rightarrow> error + phoneticData" where
  "dispatch p =
     (case index_at (t p) (cur p) of
        Inl e \<Rightarrow> Inl e
      | Inr next \<Rightarrow>
          if next \<in> set ''aeiouy'' then Inr (if cur p = 0 then add p [''a''] else p)
          else if next = CHR ''b'' then b p
          else if next = CHR 0xE7 then Inr (c_cedilla p)
          else if next = CHR ''c'' then c p
          else Inr p)"

text \<open>One iteration of the loop: the \<^verbatim>\<open>switch\<close>, then \<^verbatim>\<open>p.cur++\<close>.\<close>

definition loop_body :: "phoneticData \<Rightarrow> error + phoneticData" where
  "loop_body p = (case dispatch p of Inl e \<Rightarrow> Inl e | Inr q \<Rightarrow> Inr (q\<lparr>cur := cur q + 1\<rparr>))"

text \<open>
  The loop \<^verbatim>\<open>for p.cur < len(p.t)\<close>. It ends because no handler moves the cursor back
  or changes the text, and \<^verbatim>\<open>p.cur++\<close> moves it on.
\<close>

function scan :: "phoneticData \<Rightarrow> error + phoneticData" where
  "scan p =
     (if cur p < int (length (t p))
      then (case loop_body p of Inl e \<Rightarrow> Inl e | Inr q \<Rightarrow> scan q)
      else Inr p)"
  by pat_completeness auto
termination
proof (relation "measure (\<lambda>p. nat (int (length (t p)) - cur p))")
  show "wf (measure (\<lambda>p. nat (int (length (t p)) - cur p)))"
    by simp
next
  fix p q
  assume inside: "cur p < int (length (t p))" and body: "loop_body p = Inr q"
  have hb: "t r = t p \<and> cur p \<le> cur r" if "b p = Inr r" for r
    using that by (auto simp: b_def Let_def skip_def add_def split: sum.splits if_splits)
  have hch: "t r = t p \<and> cur p \<le> cur r" if "ch_branch p = Inr r" for r
    using that
    by (auto simp: ch_branch_def cond_def skip_def add_def Let_def split: sum.splits if_splits)
  have hc: "t r = t p \<and> cur p \<le> cur r" if "c p = Inr r" for r
    using that
    by (auto simp: c_def cond_def skip_def add_def Let_def dest: hch
             split: sum.splits if_splits)
  have hdis: "t r = t p \<and> cur p \<le> cur r" if "dispatch p = Inr r" for r
    using that
    by (auto simp: dispatch_def c_cedilla_def add_def Let_def dest: hb hc
             split: sum.splits if_splits)
  from body obtain r where r: "dispatch p = Inr r" and q: "q = r\<lparr>cur := cur r + 1\<rparr>"
    by (auto simp: loop_body_def split: sum.splits)
  show "(q, p) \<in> measure (\<lambda>p. nat (int (length (t p)) - cur p))"
    using hdis[OF r] inside by (simp add: q)
qed

text \<open>
  The start of \<^verbatim>\<open>Metaphone\<close>: the fresh state over the padded text, the skip of a silent
  initial cluster, and the test for \<^verbatim>\<open>x\<close>.
\<close>

definition new_state :: "string \<Rightarrow> phoneticData" where
  "new_state s =
     \<lparr>t = s @ ''     '', cur = 0, isSlavoGermanic = False, metaphone1 = [], metaphone2 = []\<rparr>"

definition skip_silent :: "phoneticData \<Rightarrow> error + phoneticData" where
  "skip_silent p =
     (case matchesAny p 0 [''gn'', ''kn'', ''pn'', ''wr'', ''ps''] of
        Inl e \<Rightarrow> Inl e
      | Inr m \<Rightarrow> Inr (if m then skip p 2 else p))"

definition initial_x :: "phoneticData \<Rightarrow> error + phoneticData" where
  "initial_x p =
     (case matchesAny p 0 [''x''] of
        Inl e \<Rightarrow> Inl e
      | Inr m \<Rightarrow> Inr (if m then add p [''s''] else p))"

definition initialize :: "string \<Rightarrow> error + phoneticData" where
  "initialize s =
     (case skip_silent (new_state s) of Inl e \<Rightarrow> Inl e | Inr p \<Rightarrow> initial_x p)"

text \<open>
  \<^verbatim>\<open>Metaphone\<close>, as the value it returns; the line it prints is in \<open>Metaphone_call\<close>
  below.
\<close>

definition Metaphone :: "string \<Rightarrow> error + string \<times> string" where
  "Metaphone s =
     (case initialize s of
        Inl e \<Rightarrow> Inl e
      | Inr p \<Rightarrow>
          (case scan p of
             Inl e \<Rightarrow> Inl e
           | Inr q \<Rightarrow> Inr (metaphone1 q, metaphone2 q)))"

text \<open>
  A call of \<^verbatim>\<open>Metaphone\<close> with its effect: \<^verbatim>\<open>fmt.Println\<close> writes one line to the
  standard output (its operands separated by spaces, then a newline). The standard output
  is the list of the lines written so far; a panic comes before the line is written.
\<close>

definition println_line :: "string \<Rightarrow> string \<Rightarrow> string \<Rightarrow> string" where
  "println_line m1 m2 s =
     ''First: '' @ '' '' @ m1 @ '' '' @ [CHR 0x09] @ ''Second: '' @ '' '' @ m2 @ '' ''
       @ [CHR 0x09] @ '' Original: '' @ '' '' @ s @ [CHR 0x0A]"

definition Metaphone_call ::
    "string \<Rightarrow> string list \<Rightarrow> (error + string \<times> string) \<times> string list" where
  "Metaphone_call s out =
     (case Metaphone s of
        Inl e \<Rightarrow> (Inl e, out)
      | Inr (m1, m2) \<Rightarrow> (Inr (m1, m2), out @ [println_line m1 m2 s]))"

section \<open>Notions used to state the properties\<close>

text \<open>The state after \<open>n\<close> iterations of the loop (or the final one, if it ended before).\<close>

fun run :: "nat \<Rightarrow> phoneticData \<Rightarrow> error + phoneticData" where
  "run 0 p = Inr p"
| "run (Suc n) p =
     (if cur p < int (length (t p))
      then (case loop_body p of Inl e \<Rightarrow> Inl e | Inr q \<Rightarrow> run n q)
      else Inr p)"

text \<open>The window of \<open>n\<close> bytes of the text that starts \<open>off\<close> bytes from the cursor.\<close>

definition win :: "phoneticData \<Rightarrow> int \<Rightarrow> nat \<Rightarrow> string" where
  "win p off n = take n (drop (nat (cur p + off)) (t p))"

text \<open>The cursor is on a byte of the word itself, with the five bytes of padding after it.\<close>

definition on_word :: "phoneticData \<Rightarrow> bool" where
  "on_word p = (0 \<le> cur p \<and> cur p + 6 \<le> int (length (t p)))"

definition silent_cluster :: "string \<Rightarrow> bool" where
  "silent_cluster s = (take 2 s \<in> set [''gn'', ''kn'', ''pn'', ''wr'', ''ps''])"

definition isUpper :: "char \<Rightarrow> bool" where
  "isUpper ch = (ch \<in> set ''ABCDEFGHIJKLMNOPQRSTUVWXYZ'')"

definition code_letters :: "char set" where
  "code_letters = set ''apskx''"

definition matches :: "phoneticData \<Rightarrow> int \<Rightarrow> string list \<Rightarrow> bool" where
  "matches p pos ms =
     (ms = [] \<or> (0 \<le> cur p + pos \<and> list_ex (\<lambda>m. win p pos (length m) = m) ms))"

text \<open>
  The guards of the handler \<^verbatim>\<open>c\<close> as conditions on the windows of the text, numbered as
  the rows of the decision table of the handler, and the table itself: each row is a guard
  and what the handler does when the row is the first whose guard holds.
\<close>

definition rule1 :: "phoneticData \<Rightarrow> bool" where
  "rule1 p =
     (cur p > 1 \<and> \<not> matches p (- 2) [''a'', ''e'', ''i'', ''o'', ''u'', ''y'']
      \<and> matches p (- 1) [''ach''] \<and> \<not> matches p 2 [''i'']
      \<and> (\<not> matches p 2 [''e''] \<or> matches p (- 2) [''acher'']))"

definition rule2 :: "phoneticData \<Rightarrow> bool" where
  "rule2 p = (cur p = 0 \<and> matches p 0 [''caesar''])"

definition rule3 :: "phoneticData \<Rightarrow> bool" where
  "rule3 p = matches p 0 [''chia'']"

definition rule4 :: "phoneticData \<Rightarrow> bool" where
  "rule4 p = matches p 0 [''ch'']"

definition rule5 :: "phoneticData \<Rightarrow> bool" where
  "rule5 p = (matches p 0 [''cz''] \<and> \<not> matches p (- 2) [''wicz''])"

definition rule6 :: "phoneticData \<Rightarrow> bool" where
  "rule6 p = matches p 1 [''cia'']"

definition rule4a :: "phoneticData \<Rightarrow> bool" where
  "rule4a p = (cur p > 0 \<and> matches p 0 [''chae''])"

definition rule4b :: "phoneticData \<Rightarrow> bool" where
  "rule4b p =
     (cur p = 0 \<and> \<not> matches p 0 [''chore'']
      \<and> matches p 1 [''harac'', ''haris'', ''hor'', ''hym'', ''hia'', ''hem''])"

definition rule4c :: "phoneticData \<Rightarrow> bool" where
  "rule4c p =
     (matches p (- cur p) [''van '', ''von '', ''sch'']
      \<or> matches p (- 2) [''orches'', ''archit'', ''orchid'']
      \<or> matches p 2 [''t'', ''s'']
      \<or> ((matches p (- 1) [''a'', ''e'', ''o'', ''u''] \<or> cur p = 0)
          \<and> matches p 2 [''l'', ''r'', ''n'', ''m'', ''b'', ''h'', ''f'', ''v'', ''w'', '' '']))"

definition rule4d :: "phoneticData \<Rightarrow> bool" where
  "rule4d p = (cur p > 0 \<and> matches p (- cur p) [''mc''])"

definition rule4e :: "phoneticData \<Rightarrow> bool" where
  "rule4e p = (cur p > 0)"

fun first_match :: "(('s \<Rightarrow> bool) \<times> ('s \<Rightarrow> 's)) list \<Rightarrow> 's \<Rightarrow> 's" where
  "first_match [] p = p"
| "first_match ((guard, action) # rows) p =
     (if guard p then action p else first_match rows p)"

definition ch_rules :: "((phoneticData \<Rightarrow> bool) \<times> (phoneticData \<Rightarrow> phoneticData)) list" where
  "ch_rules =
     [(rule4a, \<lambda>p. add p [''k'']),
      (rule4b, \<lambda>p. add p [''k'']),
      (rule4c, \<lambda>p. add p [''k'']),
      (rule4d, \<lambda>p. add p [''k'']),
      (rule4e, \<lambda>p. add p [''x'', ''k'']),
      (\<lambda>p. True, \<lambda>p. add p [''x''])]"

definition c_rules :: "((phoneticData \<Rightarrow> bool) \<times> (phoneticData \<Rightarrow> phoneticData)) list" where
  "c_rules =
     [(rule1, \<lambda>p. skip (add p [''k'']) 1),
      (rule2, \<lambda>p. skip (add p [''s'']) 1),
      (rule3, \<lambda>p. skip (add p [''k'']) 1),
      (rule4, \<lambda>p. skip (first_match ch_rules p) 1),
      (rule5, \<lambda>p. skip (add p [''s'', ''x'']) 1),
      (rule6, \<lambda>p. skip (add p [''x'']) 2)]"

text \<open>The two codes have the same length and are made of the five letters.\<close>

definition codes_ok :: "phoneticData \<Rightarrow> bool" where
  "codes_ok p =
     (length (metaphone1 p) = length (metaphone2 p)
      \<and> set (metaphone1 p) \<subseteq> code_letters \<and> set (metaphone2 p) \<subseteq> code_letters)"

text \<open>The bytes that the \<^verbatim>\<open>switch\<close> of the loop has a case for.\<close>

definition handled :: "char \<Rightarrow> bool" where
  "handled ch = (ch \<in> set ''aeiouybc'' \<or> ch = CHR 0xE7)"

section \<open>Basic facts\<close>

declare scan.simps [simp del]

lemma add_fields [simp]:
  "t (add p ph) = t p" "cur (add p ph) = cur p"
  "isSlavoGermanic (add p ph) = isSlavoGermanic p"
  by (simp_all add: add_def Let_def)

lemma skip_fields [simp]:
  "t (skip p n) = t p" "cur (skip p n) = cur p + n"
  "metaphone1 (skip p n) = metaphone1 p" "metaphone2 (skip p n) = metaphone2 p"
  by (simp_all add: skip_def)

lemmas guard_defs = c_germanic_def c_caesar_def c_chia_def c_ch_def c_cz_def c_cia_def
  ch_michael_def ch_greek_def ch_kh_def isVowel_def

lemmas go_defs = and_then_def or_else_def neg_def cond_def

subsection \<open>The matcher on windows that end inside the text\<close>

lemma matchesLoop_in_range:
  assumes "0 \<le> cur p + pos"
    and "\<forall>m \<in> set ms. cur p + pos + int (length m) \<le> int (length (t p))"
  shows "matchesLoop p pos ms = Inr (list_ex (\<lambda>m. win p pos (length m) = m) ms)"
  using assms
proof (induction ms)
  case Nil
  then show ?case by simp
next
  case (Cons m ms)
  then show ?case
    by (simp add: slice_def win_def add.commute add.left_commute)
qed

lemma matchesAny_in_range:
  assumes "\<forall>m \<in> set ms. cur p + pos + int (length m) \<le> int (length (t p))"
  shows "matchesAny p pos ms = Inr (matches p pos ms)"
  using assms by (auto simp: matchesAny_def matches_def matchesLoop_in_range)

lemma matchesAny_low_side:
  "cur p + pos < 0 \<Longrightarrow> ms \<noteq> [] \<Longrightarrow> matchesAny p pos ms = Inr False"
  by (simp add: matchesAny_def)

subsection \<open>What the handlers leave unchanged\<close>

lemma b_keeps: "b p = Inr q \<Longrightarrow> t q = t p \<and> cur p \<le> cur q \<and> cur q \<le> cur p + 1"
  by (auto simp: b_def Let_def split: sum.splits if_splits)

lemma ch_branch_keeps: "ch_branch p = Inr q \<Longrightarrow> t q = t p \<and> cur q = cur p + 1"
  by (auto simp: ch_branch_def cond_def split: sum.splits if_splits)

lemma c_keeps: "c p = Inr q \<Longrightarrow> t q = t p \<and> cur p \<le> cur q \<and> cur q \<le> cur p + 2"
  by (auto simp: c_def cond_def dest: ch_branch_keeps split: sum.splits if_splits)

lemma dispatch_keeps:
  "dispatch p = Inr q \<Longrightarrow> t q = t p \<and> cur p \<le> cur q \<and> cur q \<le> cur p + 2"
  by (auto simp: dispatch_def c_cedilla_def dest: b_keeps c_keeps
           split: sum.splits if_splits)

lemma loop_body_keeps:
  "loop_body p = Inr q \<Longrightarrow> t q = t p \<and> cur p < cur q \<and> cur q \<le> cur p + 3"
  by (auto simp: loop_body_def dest: dispatch_keeps split: sum.splits)

subsection \<open>No read leaves the padded text\<close>

text \<open>A byte of the padded text that is not a space lies in the word.\<close>

lemma letter_on_word:
  assumes "t p = s @ ''     ''" and "0 \<le> cur p" and "cur p < int (length (t p))"
    and "t p ! nat (cur p) \<noteq> CHR '' ''"
  shows "on_word p"
proof -
  have "nat (cur p) < length s"
  proof (rule ccontr)
    assume "\<not> nat (cur p) < length s"
    then have ge: "length s \<le> nat (cur p)" by simp
    have "nat (cur p) - length s < 5" using assms(1,3) ge by simp
    then have "''     '' ! (nat (cur p) - length s) = CHR '' ''"
      by (auto simp: less_Suc_eq numeral_eq_Suc nth_Cons')
    then have "t p ! nat (cur p) = CHR '' ''"
      using ge by (simp add: assms(1) nth_append)
    with assms(4) show False by simp
  qed
  then show ?thesis using assms(1,2) by (simp add: on_word_def)
qed

lemma b_total: "on_word p \<Longrightarrow> \<exists>q. b p = Inr q"
  by (simp add: b_def Let_def index_at_def on_word_def)

lemma ch_branch_total: "on_word p \<Longrightarrow> \<exists>q. ch_branch p = Inr q"
  by (simp add: ch_branch_def guard_defs go_defs matchesAny_in_range on_word_def)

lemma c_total: "on_word p \<Longrightarrow> \<exists>q. c p = Inr q"
  using ch_branch_total[of p]
  by (auto simp add: c_def guard_defs go_defs matchesAny_in_range on_word_def)

lemma dispatch_total:
  assumes "t p = s @ ''     ''" and "0 \<le> cur p" and "cur p < int (length (t p))"
  shows "\<exists>q. dispatch p = Inr q"
proof -
  have ix: "index_at (t p) (cur p) = Inr (t p ! nat (cur p))"
    using assms(2,3) by (simp add: index_at_def)
  have w: "on_word p" if "t p ! nat (cur p) \<noteq> CHR '' ''"
    using letter_on_word[OF assms that] .
  show ?thesis
    using b_total[of p] c_total[of p] w
    by (auto simp: dispatch_def ix)
qed

lemma loop_body_total:
  assumes "t p = s @ ''     ''" and "0 \<le> cur p" and "cur p < int (length (t p))"
  shows "\<exists>q. loop_body p = Inr q"
  using dispatch_total[OF assms] by (auto simp: loop_body_def)

lemma scan_total:
  "t p = s @ ''     '' \<Longrightarrow> 0 \<le> cur p \<Longrightarrow> \<exists>q. scan p = Inr q"
proof (induction p rule: scan.induct)
  case (1 p)
  show ?case
  proof (cases "cur p < int (length (t p))")
    case False
    then show ?thesis by (simp add: scan.simps[of p])
  next
    case True
    from loop_body_total[OF "1.prems" True] obtain q where q: "loop_body p = Inr q" ..
    from loop_body_keeps[OF q] "1.prems" have "t q = s @ ''     ''" "0 \<le> cur q" by auto
    from "1.IH"[OF True q this] obtain r where "scan q = Inr r" ..
    then show ?thesis using True q by (simp add: scan.simps[of p])
  qed
qed

lemma skip_silent_total:
  "\<exists>p. skip_silent (new_state s) = Inr p \<and> t p = s @ ''     ''
       \<and> cur p = (if matches (new_state s) 0 [''gn'', ''kn'', ''pn'', ''wr'', ''ps''] then 2 else 0)
       \<and> metaphone1 p = [] \<and> metaphone2 p = []"
  by (simp add: skip_silent_def new_state_def matchesAny_in_range)

lemma initial_x_total:
  assumes "t p = s @ ''     ''" and "0 \<le> cur p" and "cur p \<le> 2"
  shows "initial_x p = Inr (if matches p 0 [''x''] then add p [''s''] else p)"
  using assms by (simp add: initial_x_def matchesAny_in_range)

lemma initialize_total:
  "\<exists>p. initialize s = Inr p \<and> t p = s @ ''     '' \<and> (cur p = 0 \<or> cur p = 2)"
proof -
  from skip_silent_total[of s] obtain p where p: "skip_silent (new_state s) = Inr p"
    "t p = s @ ''     ''" "cur p = 0 \<or> cur p = 2"
    by (auto split: if_splits)
  from p(3) have "0 \<le> cur p" "cur p \<le> 2" by auto
  from initial_x_total[OF p(2) this] p show ?thesis
    by (auto simp: initialize_def)
qed

subsection \<open>The handler \<^verbatim>\<open>c\<close> as a decision table\<close>

lemmas rule_defs = rule1_def rule2_def rule3_def rule4_def rule5_def rule6_def
  rule4a_def rule4b_def rule4c_def rule4d_def rule4e_def

lemma ch_branch_table:
  "on_word p \<Longrightarrow> ch_branch p = Inr (skip (first_match ch_rules p) 1)"
  by (simp add: ch_branch_def guard_defs go_defs matchesAny_in_range on_word_def
        ch_rules_def rule_defs)

lemma c_table:
  "on_word p \<Longrightarrow> c p = Inr (first_match c_rules p)"
  by (simp add: c_def guard_defs go_defs matchesAny_in_range on_word_def ch_branch_table
        c_rules_def rule_defs)

lemma win_nth:
  assumes "win p off n = m" and "i < length m"
  shows "t p ! (nat (cur p + off) + i) = m ! i"
proof -
  from assms have "i < n" and "i < length (drop (nat (cur p + off)) (t p))"
    by (auto simp: win_def)
  then show ?thesis using assms(1) by (auto simp: win_def)
qed

lemma matches_nth:
  assumes "matches p off [m]" and "0 \<le> cur p + off" and "i < length m"
  shows "t p ! (nat (cur p + off) + i) = m ! i"
  using assms win_nth[of p off "length m" m i] by (simp add: matches_def)

subsection \<open>The start of the run\<close>

lemma silent_cluster_padded:
  "matches (new_state s) 0 [''gn'', ''kn'', ''pn'', ''wr'', ''ps''] = silent_cluster s"
proof (cases s)
  case Nil
  then show ?thesis by (simp add: matches_def win_def new_state_def silent_cluster_def)
next
  case (Cons a s')
  then show ?thesis
    by (cases s') (auto simp: matches_def win_def new_state_def silent_cluster_def)
qed

lemma silent_cluster_length: "silent_cluster s \<Longrightarrow> 2 \<le> length s"
  by (cases s; cases "tl s") (auto simp: silent_cluster_def)

lemma x_at_cursor_padded:
  assumes "t p = s @ ''     ''" and "cur p = int k" and "k \<le> length s"
  shows "matches p 0 [''x''] = (take 1 (drop k s) = ''x'')"
proof (cases "drop k s")
  case Nil
  then show ?thesis using assms by (simp add: matches_def win_def)
next
  case (Cons a s')
  then show ?thesis using assms by (simp add: matches_def win_def)
qed

lemma initialize_eq:
  "initialize s =
     Inr \<lparr>t = s @ ''     '', cur = (if silent_cluster s then 2 else 0),
          isSlavoGermanic = False,
          metaphone1 = (if take 1 (drop (if silent_cluster s then 2 else 0) s) = ''x''
                        then ''s'' else []),
          metaphone2 = (if take 1 (drop (if silent_cluster s then 2 else 0) s) = ''x''
                        then ''s'' else [])\<rparr>"
proof -
  define k :: nat where "k = (if silent_cluster s then 2 else 0)"
  define p where "p = (new_state s)\<lparr>cur := int k\<rparr>"
  have "matchesAny (new_state s) 0 [''gn'', ''kn'', ''pn'', ''wr'', ''ps''] =
        Inr (matches (new_state s) 0 [''gn'', ''kn'', ''pn'', ''wr'', ''ps''])"
    by (rule matchesAny_in_range) (simp add: new_state_def)
  then have "matchesAny (new_state s) 0 [''gn'', ''kn'', ''pn'', ''wr'', ''ps''] =
        Inr (silent_cluster s)"
    by (simp only: silent_cluster_padded)
  then have sk: "skip_silent (new_state s) = Inr p"
    by (simp add: skip_silent_def p_def k_def skip_def new_state_def)
  have tp: "t p = s @ ''     ''" and cp: "cur p = int k"
    by (simp_all add: p_def new_state_def)
  have kl: "k \<le> length s" using silent_cluster_length[of s] by (simp add: k_def)
  have "0 \<le> cur p" "cur p \<le> 2" by (simp_all add: cp k_def)
  from initial_x_total[OF tp this] x_at_cursor_padded[OF tp cp kl]
  have "initial_x p = Inr (if take 1 (drop k s) = ''x'' then add p [''s''] else p)"
    by simp
  then show ?thesis
    using sk by (simp add: initialize_def p_def k_def new_state_def add_def)
qed

subsection \<open>The iterations of the loop\<close>

lemma scan_invariant:
  assumes step: "\<And>p q. I p \<Longrightarrow> cur p < int (length (t p)) \<Longrightarrow> loop_body p = Inr q \<Longrightarrow> I q"
  shows "I p \<Longrightarrow> scan p = Inr q \<Longrightarrow> I q"
proof (induction p rule: scan.induct)
  case (1 p)
  show ?case
  proof (cases "cur p < int (length (t p))")
    case False
    with "1.prems" show ?thesis by (simp add: scan.simps[of p])
  next
    case True
    with "1.prems"(2) obtain r where r: "loop_body p = Inr r" and s: "scan r = Inr q"
      by (auto simp: scan.simps[of p] split: sum.splits)
    from step[OF "1.prems"(1) True r] have "I r" .
    from "1.IH"[OF True r this s] show ?thesis .
  qed
qed

lemma run_total:
  "t p = s @ ''     '' \<Longrightarrow> 0 \<le> cur p \<Longrightarrow> \<exists>q. run n p = Inr q"
proof (induction n arbitrary: p)
  case 0
  then show ?case by simp
next
  case (Suc n)
  show ?case
  proof (cases "cur p < int (length (t p))")
    case False
    then show ?thesis by simp
  next
    case True
    from loop_body_total[OF Suc.prems True] obtain q where q: "loop_body p = Inr q" ..
    from loop_body_keeps[OF q] Suc.prems have "t q = s @ ''     ''" "0 \<le> cur q" by auto
    from Suc.IH[OF this] obtain r where "run n q = Inr r" ..
    then show ?thesis using True q by simp
  qed
qed

lemma run_mono: "run n p = Inr q \<Longrightarrow> t q = t p \<and> cur p \<le> cur q"
proof (induction n arbitrary: p)
  case 0
  then show ?case by simp
next
  case (Suc n)
  show ?case
  proof (cases "cur p < int (length (t p))")
    case False
    with Suc.prems show ?thesis by simp
  next
    case True
    with Suc.prems obtain r where r: "loop_body p = Inr r" and s: "run n r = Inr q"
      by (auto split: sum.splits)
    from loop_body_keeps[OF r] Suc.IH[OF s] show ?thesis by simp
  qed
qed

lemma run_strict:
  assumes "run (Suc n) p = Inr q" and "cur p < int (length (t p))"
  shows "cur p < cur q"
proof -
  from assms obtain r where r: "loop_body p = Inr r" and s: "run n r = Inr q"
    by (auto split: sum.splits)
  from loop_body_keeps[OF r] run_mono[OF s] show ?thesis by simp
qed

lemma run_done: "\<not> cur p < int (length (t p)) \<Longrightarrow> run n p = Inr p"
  by (cases n) simp_all

lemma run_add:
  "run (m + k) p = (case run m p of Inl e \<Rightarrow> Inl e | Inr q \<Rightarrow> run k q)"
proof (induction m arbitrary: p)
  case 0
  then show ?case by simp
next
  case (Suc m)
  show ?case
  proof (cases "cur p < int (length (t p))")
    case False
    then show ?thesis by (simp add: run_done)
  next
    case True
    then show ?thesis by (simp add: Suc.IH split: sum.splits)
  qed
qed

lemma scan_is_run: "\<exists>n. scan p = run n p"
proof (induction p rule: scan.induct)
  case (1 p)
  show ?case
  proof (cases "cur p < int (length (t p))")
    case False
    then have "scan p = run 0 p" by (simp add: scan.simps[of p])
    then show ?thesis ..
  next
    case True
    show ?thesis
    proof (cases "loop_body p")
      case (Inl e)
      with True have "scan p = run 1 p" by (simp add: scan.simps[of p])
      then show ?thesis ..
    next
      case (Inr q)
      from "1.IH"[OF True Inr] obtain n where "scan q = run n q" ..
      with True Inr have "scan p = run (Suc n) p" by (simp add: scan.simps[of p])
      then show ?thesis ..
    qed
  qed
qed

subsection \<open>What the handlers emit\<close>

lemma b_emits:
  "b p = Inr q \<Longrightarrow> metaphone1 q = metaphone1 p @ ''p'' \<and> metaphone2 q = metaphone2 p @ ''p''"
  by (auto simp: b_def Let_def add_def skip_def split: sum.splits if_splits)

lemma ch_branch_emits:
  "ch_branch p = Inr q \<Longrightarrow>
   \<exists>e1 e2. metaphone1 q = metaphone1 p @ e1 \<and> metaphone2 q = metaphone2 p @ e2 \<and>
           (e1, e2) \<in> {(''k'', ''k''), (''x'', ''k''), (''x'', ''x'')}"
  by (auto simp: ch_branch_def cond_def add_def skip_def split: sum.splits if_splits)

lemma c_emits:
  "c p = Inr q \<Longrightarrow>
   \<exists>e1 e2. metaphone1 q = metaphone1 p @ e1 \<and> metaphone2 q = metaphone2 p @ e2 \<and>
           (e1, e2) \<in> {([], []), (''k'', ''k''), (''s'', ''s''), (''x'', ''k''),
                       (''x'', ''x''), (''s'', ''x'')}"
  by (auto simp: c_def cond_def add_def skip_def dest!: ch_branch_emits
           split: sum.splits if_splits)

lemma dispatch_emits:
  "dispatch p = Inr q \<Longrightarrow>
   \<exists>e1 e2. metaphone1 q = metaphone1 p @ e1 \<and> metaphone2 q = metaphone2 p @ e2 \<and>
           ((e1, e2) \<in> {([], []), (''p'', ''p''), (''k'', ''k''), (''s'', ''s''),
                        (''x'', ''k''), (''x'', ''x''), (''s'', ''x'')}
            \<or> (cur p = 0 \<and> (e1, e2) = (''a'', ''a'')))"
  by (auto simp: dispatch_def c_cedilla_def add_def dest!: b_emits c_emits
           split: sum.splits if_splits)

lemma loop_body_emits:
  "loop_body p = Inr q \<Longrightarrow>
   \<exists>e1 e2. metaphone1 q = metaphone1 p @ e1 \<and> metaphone2 q = metaphone2 p @ e2 \<and>
           ((e1, e2) \<in> {([], []), (''p'', ''p''), (''k'', ''k''), (''s'', ''s''),
                        (''x'', ''k''), (''x'', ''x''), (''s'', ''x'')}
            \<or> (cur p = 0 \<and> (e1, e2) = (''a'', ''a'')))"
  by (auto simp: loop_body_def dest!: dispatch_emits split: sum.splits)

lemma loop_body_codes_ok: "codes_ok p \<Longrightarrow> loop_body p = Inr q \<Longrightarrow> codes_ok q"
  by (auto simp: codes_ok_def code_letters_def dest!: loop_body_emits)

lemma loop_body_no_a:
  assumes "1 \<le> cur p \<and> CHR ''a'' \<notin> set (metaphone1 p) \<and> CHR ''a'' \<notin> set (metaphone2 p)"
    and "loop_body p = Inr q"
  shows "1 \<le> cur q \<and> CHR ''a'' \<notin> set (metaphone1 q) \<and> CHR ''a'' \<notin> set (metaphone2 q)"
  using assms loop_body_keeps[OF assms(2)] by (auto dest!: loop_body_emits)

lemma dispatch_unhandled:
  "index_at (t p) (cur p) = Inr ch \<Longrightarrow> \<not> handled ch \<Longrightarrow> dispatch p = Inr p"
  by (auto simp: dispatch_def handled_def)

lemma dispatch_vowel:
  "index_at (t p) (cur p) = Inr ch \<Longrightarrow> ch \<in> set ''aeiouy'' \<Longrightarrow>
   dispatch p = Inr (if cur p = 0
                     then p\<lparr>metaphone1 := metaphone1 p @ ''a'', metaphone2 := metaphone2 p @ ''a''\<rparr>
                     else p)"
  by (simp add: dispatch_def add_def)

lemma scan_unhandled:
  "0 \<le> cur p \<Longrightarrow> \<forall>ch \<in> set (t p). \<not> handled ch \<Longrightarrow>
   \<exists>q. scan p = Inr q \<and> metaphone1 q = metaphone1 p \<and> metaphone2 q = metaphone2 p"
proof (induction p rule: scan.induct)
  case (1 p)
  show ?case
  proof (cases "cur p < int (length (t p))")
    case False
    then show ?thesis by (simp add: scan.simps[of p])
  next
    case True
    with "1.prems" have ix: "index_at (t p) (cur p) = Inr (t p ! nat (cur p))"
      and "\<not> handled (t p ! nat (cur p))"
      by (simp_all add: index_at_def)
    then have "dispatch p = Inr p" by (rule dispatch_unhandled)
    then have body: "loop_body p = Inr (p\<lparr>cur := cur p + 1\<rparr>)"
      by (simp add: loop_body_def)
    from "1.IH"[OF True body] "1.prems" obtain q where
      "scan (p\<lparr>cur := cur p + 1\<rparr>) = Inr q" "metaphone1 q = metaphone1 p"
      "metaphone2 q = metaphone2 p"
      by auto
    then show ?thesis using True body by (simp add: scan.simps[of p])
  qed
qed

lemma upper_unhandled: "isUpper ch \<Longrightarrow> \<not> handled ch"
  by (auto simp: isUpper_def handled_def)

lemma upper_no_cluster: "\<forall>ch \<in> set s. isUpper ch \<Longrightarrow> \<not> silent_cluster s"
  by (cases s) (auto simp: silent_cluster_def isUpper_def)

lemma upper_no_x: "\<forall>ch \<in> set s. isUpper ch \<Longrightarrow> take 1 s \<noteq> ''x''"
  by (cases s) (auto simp: isUpper_def)

lemma initialize_padded:
  "\<exists>p0. initialize s = Inr p0 \<and> t p0 = s @ ''     '' \<and>
        cur p0 = (if silent_cluster s then 2 else 0) \<and> codes_ok p0 \<and>
        CHR ''a'' \<notin> set (metaphone1 p0) \<and> CHR ''a'' \<notin> set (metaphone2 p0)"
  by (auto simp: initialize_eq codes_ok_def code_letters_def)

section \<open>The properties\<close>

text \<open>
  C1. For every input, the empty string included, \<open>Metaphone\<close> ends and returns a pair of
  strings: no index and no slice of the run is out of range (such a read would be the
  result \<open>Inl\<close>). On the low side the matcher answers false for a window that starts
  before the text, whatever the candidates.
\<close>

theorem Metaphone_total:
  "(\<exists>m1 m2. Metaphone s = Inr (m1, m2)) \<and>
   (cur p + pos < 0 \<and> ms \<noteq> [] \<longrightarrow> matchesAny p pos ms = Inr False)"
proof
  from initialize_total[of s] obtain p0 where p0: "initialize s = Inr p0"
    "t p0 = s @ ''     ''" "cur p0 = 0 \<or> cur p0 = 2" by blast
  from p0(3) have "0 \<le> cur p0" by auto
  from scan_total[OF p0(2) this] obtain q where "scan p0 = Inr q" ..
  with p0(1) show "\<exists>m1 m2. Metaphone s = Inr (m1, m2)"
    by (simp add: Metaphone_def)
next
  show "cur p + pos < 0 \<and> ms \<noteq> [] \<longrightarrow> matchesAny p pos ms = Inr False"
    by (simp add: matchesAny_low_side)
qed

theorem Metaphone_total_witness:
  "(\<exists>m1 m2. Metaphone [] = Inr (m1, m2)) \<and>
   cur (new_state ''c'') + (- 1) < 0 \<and> [''ach''] \<noteq> [] \<and>
   matchesAny (new_state ''c'') (- 1) [''ach''] = Inr False"
  using Metaphone_total[of "[]" "new_state ''c''" "- 1" "[''ach'']"]
  by (simp add: new_state_def)

text \<open>
  C2. The rule for an initial \<^verbatim>\<open>x\<close> is not independent of the skip of a silent cluster.
  The test \<^verbatim>\<open>p.matchesAny(0, "x")\<close> is relative to the cursor and runs after
  \<^verbatim>\<open>p.skip(2)\<close>: for the input \<^verbatim>\<open>gnx\<close>, which begins with \<^verbatim>\<open>g\<close>, the cursor is 2, the
  byte there is \<^verbatim>\<open>x\<close>, and \<^verbatim>\<open>s\<close> is emitted to both codes before the scan, so that
  \<open>Metaphone\<close> returns \<^verbatim>\<open>s\<close> and \<^verbatim>\<open>s\<close>. The emission leaves the cursor at 2.
\<close>

theorem initial_x_after_cluster:
  "initialize ''gnx'' =
     Inr \<lparr>t = ''gnx     '', cur = 2, isSlavoGermanic = False,
          metaphone1 = ''s'', metaphone2 = ''s''\<rparr> \<and>
   hd ''gnx'' \<noteq> CHR ''x'' \<and> Metaphone ''gnx'' = Inr (''s'', ''s'')"
proof -
  have "initialize ''gnx'' =
     Inr \<lparr>t = ''gnx     '', cur = 2, isSlavoGermanic = False,
          metaphone1 = ''s'', metaphone2 = ''s''\<rparr>" by code_simp
  moreover have "Metaphone ''gnx'' = Inr (''s'', ''s'')" by code_simp
  ultimately show ?thesis by simp
qed

text \<open>
  C3. The loop reads bytes, and its case for c with cedilla is the byte \<open>0xE7\<close>. The
  input that is this letter is the two bytes \<open>0xC3 0xA7\<close> of UTF-8: neither has a case,
  and \<open>Metaphone\<close> returns two empty codes, not \<^verbatim>\<open>s\<close> and \<^verbatim>\<open>s\<close>. The handler runs, and
  emits \<^verbatim>\<open>s\<close> to both codes, only for the single byte \<open>0xE7\<close>, which is not the UTF-8
  encoding of any character.
\<close>

theorem Metaphone_c_cedilla_utf8:
  "Metaphone [CHR 0xC3, CHR 0xA7] = Inr ([], []) \<and> Metaphone [CHR 0xE7] = Inr (''s'', ''s'')"
proof -
  have "Metaphone [CHR 0xC3, CHR 0xA7] = Inr ([], [])" by code_simp
  moreover have "Metaphone [CHR 0xE7] = Inr (''s'', ''s'')" by code_simp
  ultimately show ?thesis by simp
qed

text \<open>
  C4. The handler \<^verbatim>\<open>c\<close> is an ordered decision list: where the cursor is on a byte of the
  word, its result is that of the first row of the table \<open>c_rules\<close> whose guard holds
  (\<open>first_match\<close> looks at no later row), and the unchanged state when no guard holds.
  For the input \<^verbatim>\<open>chia\<close>, rows 1 and 2 do not match and row 3 does, before the \<^verbatim>\<open>ch\<close> row
  4, which would match too; the handler emits \<^verbatim>\<open>k\<close> to both codes and skips 1, and
  \<open>Metaphone\<close> returns \<^verbatim>\<open>k\<close> and \<^verbatim>\<open>k\<close>.
\<close>

theorem c_ordered_decision_list:
  "(on_word p \<longrightarrow> c p = Inr (first_match c_rules p)) \<and>
   \<not> rule1 (new_state ''chia'') \<and> \<not> rule2 (new_state ''chia'') \<and>
   rule3 (new_state ''chia'') \<and> rule4 (new_state ''chia'') \<and>
   c (new_state ''chia'') =
     Inr ((new_state ''chia'')\<lparr>cur := 1, metaphone1 := ''k'', metaphone2 := ''k''\<rparr>) \<and>
   Metaphone ''chia'' = Inr (''k'', ''k'')"
proof -
  have "\<not> rule1 (new_state ''chia'')" by code_simp
  moreover have "\<not> rule2 (new_state ''chia'')" by code_simp
  moreover have "rule3 (new_state ''chia'')" by code_simp
  moreover have "rule4 (new_state ''chia'')" by code_simp
  moreover have "c (new_state ''chia'') =
      Inr ((new_state ''chia'')\<lparr>cur := 1, metaphone1 := ''k'', metaphone2 := ''k''\<rparr>)"
    by code_simp
  moreover have "Metaphone ''chia'' = Inr (''k'', ''k'')" by code_simp
  ultimately show ?thesis by (simp add: c_table)
qed

theorem c_ordered_decision_list_witness:
  "on_word (new_state ''chia'') \<and>
   c (new_state ''chia'') = Inr (first_match c_rules (new_state ''chia'')) \<and>
   first_match c_rules (new_state ''chia'') =
     (new_state ''chia'')\<lparr>cur := 1, metaphone1 := ''k'', metaphone2 := ''k''\<rparr>"
  using c_ordered_decision_list[of "new_state ''chia''"]
  by (auto simp: on_word_def new_state_def)

text \<open>
  C5. Row 5 of the handler \<^verbatim>\<open>c\<close>: where the cursor is on a byte of the word, the two bytes
  at the cursor are \<^verbatim>\<open>cz\<close> and the four bytes that start two before the cursor are not
  \<^verbatim>\<open>wicz\<close>, the handler appends \<^verbatim>\<open>s\<close> to the primary code and \<^verbatim>\<open>x\<close> to the secondary
  one and skips 1. Rows 1 to 4 all need another byte than \<^verbatim>\<open>z\<close> after the \<^verbatim>\<open>c\<close>, so
  none of them matches there and the theorem does not have to assume it.
\<close>

theorem c_rule5:
  assumes "on_word p" and "win p 0 2 = ''cz''" and "\<not> matches p (- 2) [''wicz'']"
  shows "c p = Inr (p\<lparr>cur := cur p + 1, metaphone1 := metaphone1 p @ ''s'',
                      metaphone2 := metaphone2 p @ ''x''\<rparr>)"
proof -
  from assms(1) have pos: "0 \<le> cur p" by (simp add: on_word_def)
  have z: "t p ! (nat (cur p) + 1) = CHR ''z''"
    using win_nth[OF assms(2), of 1] by simp
  have "\<not> rule1 p"
  proof
    assume r: "rule1 p"
    then have "1 < cur p" "matches p (- 1) [''ach'']" by (simp_all add: rule1_def)
    with matches_nth[of p "- 1" "''ach''" 2] have "t p ! (nat (cur p - 1) + 2) = CHR ''h''"
      by simp
    moreover have "nat (cur p - 1) + 2 = nat (cur p) + 1" using \<open>1 < cur p\<close> by simp
    ultimately show False using z by simp
  qed
  moreover have "\<not> rule2 p"
    using matches_nth[of p 0 "''caesar''" 1] z pos by (auto simp: rule2_def)
  moreover have "\<not> rule3 p"
    using matches_nth[of p 0 "''chia''" 1] z pos by (auto simp: rule3_def)
  moreover have "\<not> rule4 p"
    using matches_nth[of p 0 "''ch''" 1] z pos by (auto simp: rule4_def)
  moreover have "rule5 p"
    using assms(2,3) pos by (simp add: rule5_def matches_def numeral_2_eq_2)
  ultimately show ?thesis
    by (simp add: c_table[OF assms(1)] c_rules_def skip_def add_def)
qed

theorem c_rule5_witness:
  "on_word (new_state ''czerny'') \<and> win (new_state ''czerny'') 0 2 = ''cz'' \<and>
   \<not> matches (new_state ''czerny'') (- 2) [''wicz''] \<and>
   c (new_state ''czerny'') =
     Inr ((new_state ''czerny'')\<lparr>cur := 1, metaphone1 := ''s'', metaphone2 := ''x''\<rparr>)"
  using c_rule5[of "new_state ''czerny''"]
  by (simp add: new_state_def on_word_def win_def matches_def)

text \<open>
  C6. For every input made of the uppercase letters A to Z only, \<open>Metaphone\<close> returns two
  empty codes: no such byte has a case in the loop, none begins a silent cluster, and none
  is \<^verbatim>\<open>x\<close>.
\<close>

theorem uppercase_empty_codes:
  assumes "\<forall>ch \<in> set s. isUpper ch"
  shows "Metaphone s = Inr ([], [])"
proof -
  have init: "initialize s = Inr (new_state s)"
    using upper_no_cluster[OF assms] upper_no_x[OF assms]
    by (simp add: initialize_eq new_state_def)
  have "\<not> handled ch" if "ch \<in> set (t (new_state s))" for ch
  proof -
    from that consider "ch \<in> set s" | "ch = CHR '' ''" by (auto simp: new_state_def)
    then show ?thesis
    proof cases
      case 1
      with assms show ?thesis by (simp add: upper_unhandled)
    next
      case 2
      then show ?thesis by (simp add: handled_def)
    qed
  qed
  then have "\<forall>ch \<in> set (t (new_state s)). \<not> handled ch" by blast
  moreover have "0 \<le> cur (new_state s)" by (simp add: new_state_def)
  ultimately obtain q where "scan (new_state s) = Inr q" "metaphone1 q = []" "metaphone2 q = []"
    using scan_unhandled[of "new_state s"] by (auto simp: new_state_def)
  with init show ?thesis by (simp add: Metaphone_def)
qed

theorem uppercase_empty_codes_witness:
  "isUpper (CHR ''S'') \<and> isUpper (CHR ''M'') \<and> isUpper (CHR ''I'') \<and> isUpper (CHR ''T'') \<and>
   isUpper (CHR ''H'') \<and> Metaphone ''SMITH'' = Inr ([], [])"
  using uppercase_empty_codes[of "''SMITH''"] by (simp add: isUpper_def)

text \<open>
  C7. A vowel (\<^verbatim>\<open>a\<close>, \<^verbatim>\<open>e\<close>, \<^verbatim>\<open>i\<close>, \<^verbatim>\<open>o\<close>, \<^verbatim>\<open>u\<close>, \<^verbatim>\<open>y\<close>) at the cursor appends
  \<^verbatim>\<open>a\<close> to both codes when the cursor is 0 and changes nothing at any other position.
  For an input that begins with a silent cluster the scan starts at cursor 2, every state
  of the loop has its cursor at 2 or more, and no \<^verbatim>\<open>a\<close> is in the codes returned.
\<close>

theorem vowel_only_at_cursor_0:
  "(index_at (t p) (cur p) = Inr ch \<and> ch \<in> set ''aeiouy'' \<longrightarrow>
      dispatch p =
        Inr (if cur p = 0
             then p\<lparr>metaphone1 := metaphone1 p @ ''a'', metaphone2 := metaphone2 p @ ''a''\<rparr>
             else p)) \<and>
   (silent_cluster s \<longrightarrow>
      (\<exists>p0 q m1 m2. initialize s = Inr p0 \<and> cur p0 = 2 \<and> run n p0 = Inr q \<and> 2 \<le> cur q \<and>
         Metaphone s = Inr (m1, m2) \<and> CHR ''a'' \<notin> set m1 \<and> CHR ''a'' \<notin> set m2))"
proof (intro conjI impI)
  assume "index_at (t p) (cur p) = Inr ch \<and> ch \<in> set ''aeiouy''"
  then show "dispatch p =
        Inr (if cur p = 0
             then p\<lparr>metaphone1 := metaphone1 p @ ''a'', metaphone2 := metaphone2 p @ ''a''\<rparr>
             else p)"
    using dispatch_vowel[of p ch] by blast
next
  assume sc: "silent_cluster s"
  from initialize_padded[of s] sc obtain p0 where p0: "initialize s = Inr p0"
    "t p0 = s @ ''     ''" "cur p0 = 2"
    "CHR ''a'' \<notin> set (metaphone1 p0)" "CHR ''a'' \<notin> set (metaphone2 p0)"
    by auto
  have c0: "0 \<le> cur p0" using p0(3) by simp
  from run_total[OF p0(2) c0, of n] obtain q where q: "run n p0 = Inr q" ..
  from run_mono[OF q] p0(3) have q2: "2 \<le> cur q" by simp
  from scan_total[OF p0(2) c0] obtain r where r: "scan p0 = Inr r" ..
  let ?I = "\<lambda>p. 1 \<le> cur p \<and> CHR ''a'' \<notin> set (metaphone1 p) \<and> CHR ''a'' \<notin> set (metaphone2 p)"
  have "?I p0" using p0 by simp
  then have "?I r"
    using r by (rule scan_invariant[where I = ?I, rotated]) (rule loop_body_no_a)
  with p0(1,3) q q2 r
  show "\<exists>p0 q m1 m2. initialize s = Inr p0 \<and> cur p0 = 2 \<and> run n p0 = Inr q \<and> 2 \<le> cur q \<and>
         Metaphone s = Inr (m1, m2) \<and> CHR ''a'' \<notin> set m1 \<and> CHR ''a'' \<notin> set m2"
    by (simp add: Metaphone_def)
qed

theorem vowel_only_at_cursor_0_witness:
  "index_at (t (new_state ''ab'')) (cur (new_state ''ab'')) = Inr (CHR ''a'') \<and>
   CHR ''a'' \<in> set ''aeiouy'' \<and>
   dispatch (new_state ''ab'') =
     Inr ((new_state ''ab'')\<lparr>metaphone1 := ''a'', metaphone2 := ''a''\<rparr>) \<and>
   silent_cluster ''knab'' \<and>
   (\<exists>p0 q m1 m2. initialize ''knab'' = Inr p0 \<and> cur p0 = 2 \<and> run 1 p0 = Inr q \<and> 2 \<le> cur q \<and>
      Metaphone ''knab'' = Inr (m1, m2) \<and> CHR ''a'' \<notin> set m1 \<and> CHR ''a'' \<notin> set m2)"
  using vowel_only_at_cursor_0[of "new_state ''ab''" "CHR ''a''" "''knab''" 1]
  by (simp add: new_state_def index_at_def silent_cluster_def)

text \<open>
  C8. The cursor starts at 0, or at 2 when the input begins with a silent cluster; of two
  states of the loop the later one never has the smaller cursor, and while the loop runs
  an iteration makes the cursor larger. A handler moves the cursor on by 0, 1 or 2, and an
  iteration by 1, 2 or 3. The loop \<open>scan\<close> is \<open>run\<close> for some number of iterations.
\<close>

theorem cursor_monotone:
  assumes mn: "m \<le> n"
  shows "(\<exists>p0 q r k. initialize s = Inr p0 \<and> cur p0 = (if silent_cluster s then 2 else 0) \<and>
     scan p0 = run k p0 \<and>
     run m p0 = Inr q \<and> run n p0 = Inr r \<and> cur p0 \<le> cur q \<and> cur q \<le> cur r \<and>
     (m < n \<and> cur q < int (length (t q)) \<longrightarrow> cur q < cur r)) \<and>
   (dispatch p = Inr p' \<longrightarrow> cur p \<le> cur p' \<and> cur p' \<le> cur p + 2) \<and>
   (loop_body p = Inr p' \<longrightarrow> cur p + 1 \<le> cur p' \<and> cur p' \<le> cur p + 3)"
proof -
  from initialize_padded[of s] obtain p0 where p0: "initialize s = Inr p0"
    "t p0 = s @ ''     ''" "cur p0 = (if silent_cluster s then 2 else 0)"
    by auto
  have c0: "0 \<le> cur p0" using p0(3) by simp
  from scan_is_run[of p0] obtain k where k: "scan p0 = run k p0" ..
  from run_total[OF p0(2) c0, of m] obtain q where q: "run m p0 = Inr q" ..
  from run_total[OF p0(2) c0, of n] obtain r where r: "run n p0 = Inr r" ..
  from mn obtain d where d: "n = m + d" by (auto simp: le_iff_add)
  from r q have qr: "run d q = Inr r" by (simp add: d run_add)
  from run_mono[OF q] have pq: "cur p0 \<le> cur q" by simp
  from run_mono[OF qr] have le: "cur q \<le> cur r" by simp
  have strict: "cur q < cur r" if "m < n" "cur q < int (length (t q))"
  proof -
    from that(1) d obtain d' where "d = Suc d'" by (cases d) auto
    with qr have "run (Suc d') q = Inr r" by simp
    from run_strict[OF this that(2)] show ?thesis .
  qed
  from p0(1,3) k q r pq le strict
  have "\<exists>p0 q r k. initialize s = Inr p0 \<and> cur p0 = (if silent_cluster s then 2 else 0) \<and>
     scan p0 = run k p0 \<and>
     run m p0 = Inr q \<and> run n p0 = Inr r \<and> cur p0 \<le> cur q \<and> cur q \<le> cur r \<and>
     (m < n \<and> cur q < int (length (t q)) \<longrightarrow> cur q < cur r)"
    by blast
  moreover have "dispatch p = Inr p' \<longrightarrow> cur p \<le> cur p' \<and> cur p' \<le> cur p + 2"
    using dispatch_keeps[of p p'] by simp
  moreover have "loop_body p = Inr p' \<longrightarrow> cur p + 1 \<le> cur p' \<and> cur p' \<le> cur p + 3"
    using loop_body_keeps[of p p'] by auto
  ultimately show ?thesis by blast
qed

theorem cursor_monotone_witness:
  "(1::nat) \<le> 2 \<and>
   initialize ''knab'' =
     Inr \<lparr>t = ''knab     '', cur = 2, isSlavoGermanic = False,
          metaphone1 = [], metaphone2 = []\<rparr> \<and>
   run 1 \<lparr>t = ''knab     '', cur = 2, isSlavoGermanic = False,
          metaphone1 = [], metaphone2 = []\<rparr> =
     Inr \<lparr>t = ''knab     '', cur = 3, isSlavoGermanic = False,
          metaphone1 = [], metaphone2 = []\<rparr> \<and>
   run 2 \<lparr>t = ''knab     '', cur = 2, isSlavoGermanic = False,
          metaphone1 = [], metaphone2 = []\<rparr> =
     Inr \<lparr>t = ''knab     '', cur = 4, isSlavoGermanic = False,
          metaphone1 = ''p'', metaphone2 = ''p''\<rparr> \<and>
   dispatch (new_state ''bb'') =
     Inr ((new_state ''bb'')\<lparr>cur := 1, metaphone1 := ''p'', metaphone2 := ''p''\<rparr>) \<and>
   loop_body (new_state ''bb'') =
     Inr ((new_state ''bb'')\<lparr>cur := 2, metaphone1 := ''p'', metaphone2 := ''p''\<rparr>)"
proof -
  have i: "initialize ''knab'' =
     Inr \<lparr>t = ''knab     '', cur = 2, isSlavoGermanic = False,
          metaphone1 = [], metaphone2 = []\<rparr>"
    by code_simp
  have r1: "run 1 \<lparr>t = ''knab     '', cur = 2, isSlavoGermanic = False,
          metaphone1 = [], metaphone2 = []\<rparr> =
     Inr \<lparr>t = ''knab     '', cur = 3, isSlavoGermanic = False,
          metaphone1 = [], metaphone2 = []\<rparr>"
    by code_simp
  have r2: "run 2 \<lparr>t = ''knab     '', cur = 2, isSlavoGermanic = False,
          metaphone1 = [], metaphone2 = []\<rparr> =
     Inr \<lparr>t = ''knab     '', cur = 4, isSlavoGermanic = False,
          metaphone1 = ''p'', metaphone2 = ''p''\<rparr>"
    by code_simp
  have d: "dispatch (new_state ''bb'') =
      Inr ((new_state ''bb'')\<lparr>cur := 1, metaphone1 := ''p'', metaphone2 := ''p''\<rparr>)"
    by code_simp
  have l: "loop_body (new_state ''bb'') =
      Inr ((new_state ''bb'')\<lparr>cur := 2, metaphone1 := ''p'', metaphone2 := ''p''\<rparr>)"
    by code_simp
  show ?thesis
    using cursor_monotone[of 1 2 "''knab''" "new_state ''bb''"
        "(new_state ''bb'')\<lparr>cur := 2, metaphone1 := ''p'', metaphone2 := ''p''\<rparr>"] i r1 r2 d l
    by simp
qed

text \<open>
  C10. For every input the two codes returned have the same length and are made of the
  letters \<^verbatim>\<open>a\<close>, \<^verbatim>\<open>p\<close>, \<^verbatim>\<open>s\<close>, \<^verbatim>\<open>k\<close>, \<^verbatim>\<open>x\<close> only: before the scan and in each
  iteration, one letter is appended to each code or none to either.
\<close>

theorem codes_equal_length:
  "\<exists>m1 m2. Metaphone s = Inr (m1, m2) \<and> length m1 = length m2 \<and>
           set m1 \<subseteq> code_letters \<and> set m2 \<subseteq> code_letters"
proof -
  from initialize_padded[of s] obtain p0 where p0: "initialize s = Inr p0"
    "t p0 = s @ ''     ''" "cur p0 = (if silent_cluster s then 2 else 0)" "codes_ok p0"
    by auto
  have c0: "0 \<le> cur p0" using p0(3) by simp
  from scan_total[OF p0(2) c0] obtain r where r: "scan p0 = Inr r" ..
  from p0(4) r have "codes_ok r"
    by (rule scan_invariant[where I = codes_ok, rotated]) (rule loop_body_codes_ok)
  with p0(1) r show ?thesis by (simp add: Metaphone_def codes_ok_def)
qed

theorem codes_equal_length_witness:
  "Metaphone ''czerny'' = Inr (''s'', ''x'') \<and> length ''s'' = length ''x'' \<and>
   set ''s'' \<subseteq> code_letters \<and> set ''x'' \<subseteq> code_letters"
proof -
  have "Metaphone ''czerny'' = Inr (''s'', ''x'')" by code_simp
  then show ?thesis
    using codes_equal_length[of "''czerny''"] by simp
qed

end
